theory Spec2Isabelle
  imports Main "HOL-Library.Sublist"
begin

section \<open>Texts\<close>

text \<open>
  A Python \<open>str\<close> is a sequence of Unicode code points; it is modelled as the list of
  their numbers, so that \<open>length\<close> counts code points as Python's \<open>len\<close> does. The
  texts are the ones SQLite can store: encodable in UTF-8.
\<close>

type_synonym pystr = "nat list"

text \<open>A source literal written in ASCII, as the code points of its characters.\<close>

definition ascii :: "string \<Rightarrow> pystr" where
  "ascii s = map of_char s"

text \<open>
  \<open>str.lower\<close> is a function of the Python library and not of this program. The
  definitions below take it as the parameter \<open>lower\<close>, and the theorems hold for every
  such function. Where a concrete text is evaluated, \<open>lower_basic\<close> stands for it: it is
  \<open>str.lower\<close> on texts over Basic Latin and the Cyrillic block U+0400..U+045F
  (A..Z move up by 0x20, U+0400..U+040F by 0x50, U+0410..U+042F by 0x20, and every
  other code point of the two blocks is its own lower case).
\<close>

definition lower_cp :: "nat \<Rightarrow> nat" where
  "lower_cp c =
     (if 0x41 \<le> c \<and> c \<le> 0x5A then c + 0x20
      else if 0x400 \<le> c \<and> c \<le> 0x40F then c + 0x50
      else if 0x410 \<le> c \<and> c \<le> 0x42F then c + 0x20
      else c)"

definition lower_basic :: "pystr \<Rightarrow> pystr" where
  "lower_basic s = map lower_cp s"

section \<open>SentimentChecker\<close>

text \<open>
  \<open>s.count(sub)\<close>: the scan of \<open>str.count\<close> from the left. Where \<open>sub\<close> starts at the
  current position it is counted and the scan resumes behind it; otherwise the scan
  moves on by one code point. The empty \<open>sub\<close> is found once at every position and once
  at the end.
\<close>

fun count :: "'a list \<Rightarrow> 'a list \<Rightarrow> nat" where
  "count [] sub = (if sub = [] then 1 else 0)"
| "count (c # s) sub =
     (if sub = [] then Suc (count s sub)
      else if prefix sub (c # s) then Suc (count (drop (length sub) (c # s)) sub)
      else count s sub)"

text \<open>
  The class attributes \<open>POSITIVE\<close> and \<open>NEGATIVE\<close>. The markers are Cyrillic, given here
  by their code points: \<open>khorosh\<close>, \<open>lyublyu\<close> and \<open>plokho\<close>, \<open>nenavizh\<close>.
\<close>

definition POSITIVE :: "pystr list" where
  "POSITIVE =
     [[0x445, 0x43E, 0x440, 0x43E, 0x448],
      [0x43B, 0x44E, 0x431, 0x43B, 0x44E]]"

definition NEGATIVE :: "pystr list" where
  "NEGATIVE =
     [[0x43F, 0x43B, 0x43E, 0x445, 0x43E],
      [0x43D, 0x435, 0x43D, 0x430, 0x432, 0x438, 0x436]]"

text \<open>\<open>SentimentChecker.check\<close>.\<close>

definition check :: "(pystr \<Rightarrow> pystr) \<Rightarrow> pystr \<Rightarrow> pystr" where
  "check lower text =
     (let lowered = lower text;
          pos_count = sum_list (map (count lowered) POSITIVE);
          neg_count = sum_list (map (count lowered) NEGATIVE)
      in if pos_count > neg_count then ascii ''positive''
         else if neg_count > pos_count then ascii ''negative''
         else ascii ''neutral'')"

section \<open>The classifier as the specification words it\<close>

text \<open>
  The specification speaks of the number of non-overlapping occurrences of a marker as a
  substring of the lowered text. \<open>occurs_at s sub i\<close>: \<open>sub\<close> occurs in \<open>s\<close> at position
  \<open>i\<close>. A set of positions is non-overlapping when any two of them are at least the
  length of \<open>sub\<close> apart. \<open>occurrence_count\<close> is the greatest number of occurrences that
  can be chosen without overlap.
\<close>

definition occurs_at :: "'a list \<Rightarrow> 'a list \<Rightarrow> nat \<Rightarrow> bool" where
  "occurs_at s sub i = (i + length sub \<le> length s \<and> take (length sub) (drop i s) = sub)"

definition non_overlapping :: "nat \<Rightarrow> nat set \<Rightarrow> bool" where
  "non_overlapping n P = (\<forall>i\<in>P. \<forall>j\<in>P. i < j \<longrightarrow> i + n \<le> j)"

definition occurrence_count :: "'a list \<Rightarrow> 'a list \<Rightarrow> nat" where
  "occurrence_count s sub =
     Max {card P |P. P \<subseteq> {i. occurs_at s sub i} \<and> non_overlapping (length sub) P}"

text \<open>
  \<open>classify\<close> in the words of the specification: the two sums over the markers and the
  decision rule with its tie-break.
\<close>

definition classify_spec :: "(pystr \<Rightarrow> pystr) \<Rightarrow> pystr \<Rightarrow> pystr" where
  "classify_spec lower text =
     (let lowered = lower text;
          posCount = sum_list (map (occurrence_count lowered) POSITIVE);
          negCount = sum_list (map (occurrence_count lowered) NEGATIVE)
      in if posCount > negCount then ascii ''positive''
         else if negCount > posCount then ascii ''negative''
         else ascii ''neutral'')"

section \<open>Review\<close>

text \<open>The dataclass \<open>Review\<close>; \<open>id\<close> is \<open>None\<close> until the repository has stored it.\<close>

record review =
  review_text :: pystr
  review_sentiment :: pystr
  review_created_at :: pystr
  review_id :: "int option"

section \<open>The database\<close>

text \<open>
  \<open>reviews.db\<close> holds the table \<open>reviews\<close> once \<open>init_db\<close> has created it. A row is
  \<open>(id, text, sentiment, created_at)\<close>, the columns in the order of the schema. The
  table is its rows in rowid order, which is the order a scan of the table reads them
  in, and the counter SQLite keeps for an \<open>AUTOINCREMENT\<close> key in \<open>sqlite_sequence\<close>:
  the largest rowid the table has ever held.
\<close>

type_synonym row = "int \<times> pystr \<times> pystr \<times> pystr"

record table =
  rows :: "row list"
  sqlite_sequence :: int

type_synonym database = "table option"

text \<open>
  The calls into \<open>sqlite3\<close> can raise. What the medium does is an input of the model:
  \<open>None\<close> when it works, or the call that fails and the result code of SQLite.
  \<open>sqlite3\<close> raises the codes below as \<open>OperationalError\<close>.
\<close>

datatype sqlite_code =
  SQLITE_ERROR | SQLITE_BUSY | SQLITE_READONLY | SQLITE_IOERR | SQLITE_FULL | SQLITE_CANTOPEN

datatype error = OperationalError sqlite_code

datatype fault = execute_fails sqlite_code | commit_fails sqlite_code

text \<open>
  \<open>CREATE TABLE IF NOT EXISTS reviews (id INTEGER PRIMARY KEY AUTOINCREMENT, ...)\<close>.
  \<open>init_db\<close> runs once before the server starts; when it raises, no request is served.
\<close>

definition init_db :: "database \<Rightarrow> database" where
  "init_db db =
     (case db of
        None \<Rightarrow> Some \<lparr>rows = [], sqlite_sequence = 0\<rparr>
      | Some t \<Rightarrow> Some t)"

text \<open>
  The rowid of an \<open>AUTOINCREMENT\<close> key: one more than the largest rowid the table holds
  or has ever held. When that is the largest 64-bit integer the insertion fails with
  \<open>SQLITE_FULL\<close>.
\<close>

definition max_rowid :: "table \<Rightarrow> int" where
  "max_rowid t = fold max (map fst (rows t)) (sqlite_sequence t)"

text \<open>
  \<open>cursor.execute("INSERT INTO reviews (text, sentiment, created_at) VALUES (?, ?, ?)", ...)\<close>:
  the table of the open transaction and \<open>cursor.lastrowid\<close>. Without the table the
  statement fails with \<open>no such table\<close>.
\<close>

definition execute_insert ::
  "fault option \<Rightarrow> database \<Rightarrow> pystr \<times> pystr \<times> pystr \<Rightarrow> error + table \<times> int" where
  "execute_insert f db vals =
     (case f of
        Some (execute_fails code) \<Rightarrow> Inl (OperationalError code)
      | _ \<Rightarrow>
         (case db of
            None \<Rightarrow> Inl (OperationalError SQLITE_ERROR)
          | Some t \<Rightarrow>
             if max_rowid t \<ge> 9223372036854775807 then Inl (OperationalError SQLITE_FULL)
             else let rowid = max_rowid t + 1
                  in Inr (\<lparr>rows = rows t @ [(rowid, vals)], sqlite_sequence = rowid\<rparr>, rowid)))"

text \<open>\<open>conn.commit()\<close>: the table of the transaction becomes the content of the file.\<close>

definition commit :: "fault option \<Rightarrow> table \<Rightarrow> error + database" where
  "commit f t =
     (case f of
        Some (commit_fails code) \<Rightarrow> Inl (OperationalError code)
      | _ \<Rightarrow> Inr (Some t))"

text \<open>
  \<open>cursor.execute("SELECT * FROM reviews ...")\<close> and \<open>cursor.fetchall()\<close>: the rows that
  satisfy the \<open>WHERE\<close> clause, in the order of the scan.
\<close>

definition execute_select ::
  "fault option \<Rightarrow> database \<Rightarrow> (row \<Rightarrow> bool) \<Rightarrow> error + row list" where
  "execute_select f db wh =
     (case f of
        Some (execute_fails code) \<Rightarrow> Inl (OperationalError code)
      | _ \<Rightarrow>
         (case db of
            None \<Rightarrow> Inl (OperationalError SQLITE_ERROR)
          | Some t \<Rightarrow> Inr (filter wh (rows t))))"

section \<open>ReviewRepository\<close>

text \<open>
  \<open>ReviewRepository.insert\<close>. The state passed on is the committed content of the file.
  An exception of \<open>execute\<close> or \<open>commit\<close> is not caught; the transaction it leaves open is
  never committed, since \<open>close_connection\<close> closes the connection of the request.
\<close>

definition insert_review ::
  "fault option \<Rightarrow> database \<Rightarrow> review \<Rightarrow> database \<times> (error + review)" where
  "insert_review f db review =
     (case execute_insert f db
             (review_text review, review_sentiment review, review_created_at review) of
        Inl e \<Rightarrow> (db, Inl e)
      | Inr (t, lastrowid) \<Rightarrow>
         (case commit f t of
            Inl e \<Rightarrow> (db, Inl e)
          | Inr db' \<Rightarrow> (db', Inr (review\<lparr>review_id := Some lastrowid\<rparr>))))"

text \<open>\<open>Review(**dict(row))\<close>: the columns of the row under the names of the fields.\<close>

definition review_of_row :: "row \<Rightarrow> review" where
  "review_of_row r =
     (case r of (i, t, s, c) \<Rightarrow>
        \<lparr>review_text = t, review_sentiment = s, review_created_at = c, review_id = Some i\<rparr>)"

text \<open>\<open>ReviewRepository.fetch_all\<close> and \<open>ReviewRepository.fetch_by_sentiment\<close>.\<close>

definition fetch_all :: "fault option \<Rightarrow> database \<Rightarrow> error + review list" where
  "fetch_all f db =
     (case execute_select f db (\<lambda>r. True) of
        Inl e \<Rightarrow> Inl e
      | Inr rs \<Rightarrow> Inr (map review_of_row rs))"

definition fetch_by_sentiment ::
  "fault option \<Rightarrow> database \<Rightarrow> pystr \<Rightarrow> error + review list" where
  "fetch_by_sentiment f db sentiment =
     (case execute_select f db (\<lambda>(i, t, s, c). s = sentiment) of
        Inl e \<Rightarrow> Inl e
      | Inr rs \<Rightarrow> Inr (map review_of_row rs))"

section \<open>ReviewService\<close>

text \<open>
  \<open>ReviewService.add_review\<close>; \<open>utcnow\<close> is the value of
  \<open>datetime.utcnow().isoformat()\<close> at the call.
\<close>

definition add_review ::
  "(pystr \<Rightarrow> pystr) \<Rightarrow> pystr \<Rightarrow> fault option \<Rightarrow> database \<Rightarrow> pystr
     \<Rightarrow> database \<times> (error + review)" where
  "add_review lower utcnow f db text =
     (let sentiment = check lower text;
          review = \<lparr>review_text = text, review_sentiment = sentiment,
                    review_created_at = utcnow, review_id = None\<rparr>
      in insert_review f db review)"

text \<open>\<open>ReviewService.get_reviews_by_sentiment\<close>: the empty string is the falsy one.\<close>

definition get_reviews_by_sentiment ::
  "fault option \<Rightarrow> database \<Rightarrow> pystr \<Rightarrow> error + review list" where
  "get_reviews_by_sentiment f db sentiment =
     (if sentiment = [] then fetch_all f db
      else fetch_by_sentiment f db sentiment)"

section \<open>Sequences of calls\<close>

text \<open>
  The calls of the service, each with what the environment does during it, and the
  content of the file after a sequence of them. \<open>get_reviews_by_sentiment\<close> only reads.
\<close>

datatype call =
  Add_review pystr pystr "fault option"
| Get_reviews_by_sentiment pystr "fault option"

fun step :: "(pystr \<Rightarrow> pystr) \<Rightarrow> database \<Rightarrow> call \<Rightarrow> database" where
  "step lower db (Add_review text utcnow f) = fst (add_review lower utcnow f db text)"
| "step lower db (Get_reviews_by_sentiment sentiment f) = db"

definition run :: "(pystr \<Rightarrow> pystr) \<Rightarrow> database \<Rightarrow> call list \<Rightarrow> database" where
  "run lower db calls = foldl (step lower) db calls"

text \<open>A sequence of \<open>insert\<close> calls on the repository, with the result of each.\<close>

fun insert_all ::
  "database \<Rightarrow> (fault option \<times> review) list \<Rightarrow> database \<times> (error + review) list" where
  "insert_all db [] = (db, [])"
| "insert_all db ((f, r) # xs) =
     (case insert_review f db r of
        (db1, res) \<Rightarrow> (case insert_all db1 xs of (db2, ress) \<Rightarrow> (db2, res # ress)))"

section \<open>Example texts\<close>

text \<open>
  The example of the specification, \<open>ya lyublyu etot produkt, khorosh!\<close>, in Cyrillic.
\<close>

definition example_positive :: pystr where
  "example_positive =
     [0x44F, 0x20, 0x43B, 0x44E, 0x431, 0x43B, 0x44E, 0x20, 0x44D, 0x442, 0x43E, 0x442,
      0x20, 0x43F, 0x440, 0x43E, 0x434, 0x443, 0x43A, 0x442, 0x2C, 0x20,
      0x445, 0x43E, 0x440, 0x43E, 0x448, 0x21]"



text \<open>A text without a marker, a time stamp, and a table with two rows.\<close>

definition example_neutral :: pystr where
  "example_neutral = ascii ''the weather is fine''"

definition example_utcnow :: pystr where
  "example_utcnow = ascii ''2024-05-01T10:00:00.000000''"

definition example_table :: table where
  "example_table =
     \<lparr>rows = [(1, example_positive, ascii ''positive'', example_utcnow),
              (2, example_neutral, ascii ''neutral'', example_utcnow)],
      sqlite_sequence = 2\<rparr>"

section \<open>Properties of the classifier\<close>

lemma count_no_sublist: "sub \<noteq> [] \<Longrightarrow> \<not> sublist sub s \<Longrightarrow> count s sub = 0"
proof (induction s sub rule: count.induct)
  case (1 sub)
  then show ?case by simp
next
  case (2 c s sub)
  from "2.prems" have np: "\<not> prefix sub (c # s)"
    using prefix_imp_sublist by blast
  from "2.prems" have "\<not> sublist sub s"
    by (auto simp: sublist_Cons_right)
  with "2.IH"(3) "2.prems"(1) np have "count s sub = 0" by simp
  with "2.prems"(1) np show ?case by simp
qed

lemma markers_nonempty: "m \<in> set (POSITIVE @ NEGATIVE) \<Longrightarrow> m \<noteq> []"
  by (auto simp: POSITIVE_def NEGATIVE_def)

text \<open>
  Claim C7. \<open>check\<close> is total and its value is always one of the three labels; a text
  whose lower case contains no marker is \<open>neutral\<close>, and so is the empty text (the lower
  case of the empty text being empty).
\<close>

theorem check_total:
  "check lower text \<in> {ascii ''positive'', ascii ''negative'', ascii ''neutral''}
   \<and> ((\<forall>m \<in> set (POSITIVE @ NEGATIVE). \<not> sublist m (lower text))
        \<longrightarrow> check lower text = ascii ''neutral'')
   \<and> (lower [] = [] \<longrightarrow> check lower [] = ascii ''neutral'')"
proof (intro conjI impI)
  show "check lower text \<in> {ascii ''positive'', ascii ''negative'', ascii ''neutral''}"
    by (simp add: check_def Let_def)
next
  assume none: "\<forall>m \<in> set (POSITIVE @ NEGATIVE). \<not> sublist m (lower text)"
  have zero: "count (lower text) m = 0" if "m \<in> set (POSITIVE @ NEGATIVE)" for m
    using that none markers_nonempty count_no_sublist by blast
  have pos: "sum_list (map (count (lower text)) POSITIVE) = 0"
    using zero by (simp add: POSITIVE_def)
  have neg: "sum_list (map (count (lower text)) NEGATIVE) = 0"
    using zero by (simp add: NEGATIVE_def)
  show "check lower text = ascii ''neutral''"
    unfolding check_def Let_def pos neg by simp
next
  assume "lower [] = []"
  then show "check lower [] = ascii ''neutral''"
    by (simp add: check_def Let_def POSITIVE_def NEGATIVE_def)
qed

text \<open>
  The theorem at \<open>the weather is fine\<close> and at the empty text, with \<open>lower_basic\<close>.
\<close>

theorem check_total_witness:
  "check lower_basic (ascii ''the weather is fine'') = ascii ''neutral''
   \<and> lower_basic [] = []
   \<and> check lower_basic [] = ascii ''neutral''"
proof -
  have low: "lower_basic (ascii ''the weather is fine'') = ascii ''the weather is fine''"
    by (simp add: lower_basic_def lower_cp_def ascii_def)
  have none: "\<forall>m \<in> set (POSITIVE @ NEGATIVE).
      \<not> sublist m (lower_basic (ascii ''the weather is fine''))"
    unfolding low by (simp add: POSITIVE_def NEGATIVE_def ascii_def sublist_code)
  have emp: "lower_basic [] = []"
    by (simp add: lower_basic_def)
  from check_total [of lower_basic "ascii ''the weather is fine''"] none
  have "check lower_basic (ascii ''the weather is fine'') = ascii ''neutral''" by blast
  moreover from check_total [of lower_basic "[]"] emp
  have "check lower_basic [] = ascii ''neutral''" by blast
  ultimately show ?thesis using emp by simp
qed


section \<open>The scan counts the non-overlapping occurrences\<close>

lemma occurs_at_0: "occurs_at s sub 0 = prefix sub s"
  unfolding occurs_at_def
  by (metis append_eq_conv_conj drop0 prefix_def prefix_length_le take_is_prefix add_0)

lemma occurs_at_Suc: "occurs_at (c # s) sub (Suc i) = occurs_at s sub i"
  by (simp add: occurs_at_def)

lemma occurs_at_drop: "n \<le> length s \<Longrightarrow> occurs_at (drop n s) sub i = occurs_at s sub (i + n)"
  by (auto simp: occurs_at_def add.commute)

lemma occurs_at_Nil: "sub \<noteq> [] \<Longrightarrow> \<not> occurs_at [] sub i"
  by (simp add: occurs_at_def)

lemma occurs_finite: "finite {i. occurs_at s sub i}"
proof -
  have "{i. occurs_at s sub i} \<subseteq> {..length s}"
    by (auto simp: occurs_at_def)
  then show ?thesis by (rule finite_subset) simp
qed

lemma count_achieved:
  "sub \<noteq> [] \<Longrightarrow>
     \<exists>P. P \<subseteq> {i. occurs_at s sub i} \<and> non_overlapping (length sub) P \<and> card P = count s sub"
proof (induction s sub rule: count.induct)
  case (1 sub)
  have "{} \<subseteq> {i. occurs_at [] sub i} \<and> non_overlapping (length sub) {} \<and> card ({}::nat set) = count [] sub"
    using 1 by (simp add: non_overlapping_def)
  then show ?case by blast
next
  case (2 c s sub)
  let ?n = "length sub"
  show ?case
  proof (cases "prefix sub (c # s)")
    case True
    then have len: "?n \<le> length (c # s)" by (rule prefix_length_le)
    from "2.IH"(2) "2.prems" True obtain P where
      P: "P \<subseteq> {i. occurs_at (drop ?n (c # s)) sub i}" "non_overlapping ?n P"
         "card P = count (drop ?n (c # s)) sub"
      by blast
    let ?Q = "insert 0 ((\<lambda>i. i + ?n) ` P)"
    have fin: "finite P" using P(1) occurs_finite finite_subset by blast
    have n0: "0 < ?n" using "2.prems" by simp
    have "?Q \<subseteq> {i. occurs_at (c # s) sub i}"
      using P(1) True len by (auto simp: occurs_at_0 occurs_at_drop)
    moreover have "non_overlapping ?n ?Q"
      using P(2) by (auto simp: non_overlapping_def)
    moreover have "card ?Q = Suc (card P)"
    proof -
      have "0 \<notin> (\<lambda>i. i + ?n) ` P" using n0 by auto
      moreover have "card ((\<lambda>i. i + ?n) ` P) = card P"
        by (rule card_image) (simp add: inj_on_def)
      ultimately show ?thesis using fin by simp
    qed
    ultimately have "?Q \<subseteq> {i. occurs_at (c # s) sub i} \<and> non_overlapping ?n ?Q
        \<and> card ?Q = count (c # s) sub"
      using P(3) True "2.prems" by simp
    then show ?thesis by blast
  next
    case False
    from "2.IH"(3) "2.prems" False obtain P where
      P: "P \<subseteq> {i. occurs_at s sub i}" "non_overlapping ?n P" "card P = count s sub"
      by blast
    let ?Q = "Suc ` P"
    have "?Q \<subseteq> {i. occurs_at (c # s) sub i}"
      using P(1) by (auto simp: occurs_at_Suc)
    moreover have "non_overlapping ?n ?Q"
      using P(2) by (auto simp: non_overlapping_def)
    moreover have "card ?Q = card P"
      by (rule card_image) simp
    ultimately have "?Q \<subseteq> {i. occurs_at (c # s) sub i} \<and> non_overlapping ?n ?Q
        \<and> card ?Q = count (c # s) sub"
      using P(3) False "2.prems" by simp
    then show ?thesis by blast
  qed
qed


lemma non_overlappingD:
  "non_overlapping n P \<Longrightarrow> i \<in> P \<Longrightarrow> j \<in> P \<Longrightarrow> i < j \<Longrightarrow> i + n \<le> j"
  unfolding non_overlapping_def by blast

lemma non_overlapping_shift:
  assumes "non_overlapping n P"
  shows "non_overlapping n {i. i + k \<in> P}"
  unfolding non_overlapping_def
proof (intro ballI impI)
  fix i j
  assume "i \<in> {i. i + k \<in> P}" "j \<in> {i. i + k \<in> P}" "i < j"
  then have "i + k \<in> P" "j + k \<in> P" "i + k < j + k" by simp_all
  from non_overlappingD [OF assms this] show "i + n \<le> j" by simp
qed

lemma count_bound:
  "sub \<noteq> [] \<Longrightarrow> P \<subseteq> {i. occurs_at s sub i} \<Longrightarrow> non_overlapping (length sub) P
     \<Longrightarrow> card P \<le> count s sub"
proof (induction s sub arbitrary: P rule: count.induct)
  case (1 sub)
  then have "P = {}" by (auto simp: occurs_at_Nil)
  then show ?case by simp
next
  case (2 c s sub)
  let ?n = "length sub"
  have fin: "finite P" using "2.prems"(2) occurs_finite finite_subset by blast
  show ?case
  proof (cases "prefix sub (c # s)")
    case True
    then have len: "?n \<le> length (c # s)" by (rule prefix_length_le)
    let ?A = "{i \<in> P. i < ?n}"
    let ?Q = "{i. i + ?n \<in> P}"
    have split: "P = ?A \<union> (\<lambda>i. i + ?n) ` ?Q"
    proof
      show "P \<subseteq> ?A \<union> (\<lambda>i. i + ?n) ` ?Q"
      proof
        fix i assume i: "i \<in> P"
        show "i \<in> ?A \<union> (\<lambda>i. i + ?n) ` ?Q"
        proof (cases "i < ?n")
          case True
          with i show ?thesis by simp
        next
          case False
          then have "i = (i - ?n) + ?n" by simp
          with i have "i - ?n \<in> ?Q" by simp
          with \<open>i = (i - ?n) + ?n\<close> show ?thesis by blast
        qed
      qed
    qed auto
    have A1: "card ?A \<le> 1"
    proof -
      have "\<And>i j. i \<in> ?A \<Longrightarrow> j \<in> ?A \<Longrightarrow> i = j"
      proof -
        fix i j assume "i \<in> ?A" "j \<in> ?A"
        then have ij: "i \<in> P" "j \<in> P" "i < ?n" "j < ?n" by auto
        show "i = j"
        proof (rule ccontr)
          assume "i \<noteq> j"
          then consider "i < j" | "j < i" by linarith
          then show False
          proof cases
            case 1
            with ij "2.prems"(3) have "i + ?n \<le> j" by (rule_tac non_overlappingD)
            with ij show False by simp
          next
            case 2
            with ij "2.prems"(3) have "j + ?n \<le> i" by (rule_tac non_overlappingD)
            with ij show False by simp
          qed
        qed
      qed
      then show ?thesis by (simp add: card_le_Suc0_iff_eq fin)
    qed
    have "?Q \<subseteq> {i. occurs_at (drop ?n (c # s)) sub i}"
      using "2.prems"(2) len by (auto simp: occurs_at_drop)
    moreover have "non_overlapping ?n ?Q"
      using "2.prems"(3) by (rule non_overlapping_shift)
    ultimately have Q: "card ?Q \<le> count (drop ?n (c # s)) sub"
      using "2.IH"(2) "2.prems"(1) True by blast
    have "card ((\<lambda>i. i + ?n) ` ?Q) = card ?Q"
      by (rule card_image) (simp add: inj_on_def)
    then have "card P \<le> card ?A + card ?Q"
      using split card_Un_le [of ?A "(\<lambda>i. i + ?n) ` ?Q"] by simp
    with A1 Q have "card P \<le> Suc (count (drop ?n (c # s)) sub)" by simp
    then show ?thesis using True "2.prems"(1) by simp
  next
    case False
    let ?Q = "{i. Suc i \<in> P}"
    have "0 \<notin> P" using False "2.prems"(2) by (auto simp: occurs_at_0)
    then have P: "P = Suc ` ?Q"
      by (auto simp: image_iff) (metis not0_implies_Suc)
    have "?Q \<subseteq> {i. occurs_at s sub i}"
      using "2.prems"(2) by (auto simp: occurs_at_Suc)
    moreover have "non_overlapping ?n ?Q"
      using non_overlapping_shift [OF "2.prems"(3), of 1] by simp
    ultimately have "card ?Q \<le> count s sub"
      using "2.IH"(3) "2.prems"(1) False by blast
    moreover have "card (Suc ` ?Q) = card ?Q"
      by (rule card_image) simp
    ultimately have "card P \<le> count s sub" using P by simp
    then show ?thesis using False "2.prems"(1) by simp
  qed
qed

lemma count_is_occurrence_count:
  assumes "sub \<noteq> []"
  shows "count s sub = occurrence_count s sub"
proof -
  let ?C = "{card P |P. P \<subseteq> {i. occurs_at s sub i} \<and> non_overlapping (length sub) P}"
  have le: "\<And>k. k \<in> ?C \<Longrightarrow> k \<le> count s sub"
    using count_bound [OF assms] by blast
  then have "?C \<subseteq> {..count s sub}" by blast
  then have fin: "finite ?C" by (rule finite_subset) simp
  have mem: "count s sub \<in> ?C"
    using count_achieved [OF assms, of s] by (simp only: mem_Collect_eq) metis
  have "Max ?C = count s sub"
    using fin le mem by (rule Max_eqI)
  then show ?thesis by (simp add: occurrence_count_def)
qed


lemma sum_counts_spec:
  "set ms \<subseteq> set (POSITIVE @ NEGATIVE) \<Longrightarrow>
     sum_list (map (count s) ms) = sum_list (map (occurrence_count s) ms)"
  by (induction ms) (simp_all add: count_is_occurrence_count markers_nonempty del: set_append)

lemma ascii_labels:
  "ascii ''positive'' \<noteq> ascii ''negative''"
  "ascii ''positive'' \<noteq> ascii ''neutral''"
  "ascii ''negative'' \<noteq> ascii ''neutral''"
  by (simp_all add: ascii_def)

lemma lower_example: "lower_basic example_positive = example_positive"
  by (simp add: lower_basic_def lower_cp_def example_positive_def)

lemma check_example: "check lower_basic example_positive = ascii ''positive''"
  unfolding check_def lower_example
  by (simp add: example_positive_def POSITIVE_def NEGATIVE_def)

text \<open>
  Claim C1. \<open>check\<close> lowers the whole text, sums over the positive and over the negative
  markers the number of non-overlapping occurrences in the lowered text, and decides
  by the rule of the specification: it is \<open>classify_spec\<close>.
\<close>

theorem check_refines_spec: "check lower text = classify_spec lower text"
proof -
  have pos: "sum_list (map (count (lower text)) POSITIVE)
      = sum_list (map (occurrence_count (lower text)) POSITIVE)"
    by (rule sum_counts_spec) simp
  have neg: "sum_list (map (count (lower text)) NEGATIVE)
      = sum_list (map (occurrence_count (lower text)) NEGATIVE)"
    by (rule sum_counts_spec) simp
  show ?thesis
    unfolding check_def classify_spec_def Let_def pos neg by (rule refl)
qed

text \<open>The theorem at the example of the specification: two positive markers, none negative.\<close>

theorem check_refines_spec_witness:
  "classify_spec lower_basic example_positive = ascii ''positive''"
  using check_refines_spec [of lower_basic example_positive] check_example by simp

section \<open>Exchanging the parts of a text\<close>








section \<open>Properties of the repository and the service\<close>

lemma max_rowid_Max: "max_rowid t = Max (set (sqlite_sequence t # map fst (rows t)))"
  by (simp only: max_rowid_def Max.set_eq_fold)

lemma max_rowid_ge_seq: "sqlite_sequence t \<le> max_rowid t"
  by (simp add: max_rowid_Max)

lemma max_rowid_ge_row: "row \<in> set (rows t) \<Longrightarrow> fst row \<le> max_rowid t"
  by (simp add: max_rowid_Max Max_ge_iff)

lemma max_rowid_append:
  "max_rowid \<lparr>rows = rows t @ [(max_rowid t + 1, v)], sqlite_sequence = max_rowid t + 1\<rparr>
     = max_rowid t + 1"
proof -
  let ?m = "max_rowid t"
  have "Max (insert (?m + 1) (fst ` set (rows t))) = ?m + 1"
  proof (rule Max_eqI)
    fix y assume "y \<in> insert (?m + 1) (fst ` set (rows t))"
    then have "y = ?m + 1 \<or> (\<exists>row \<in> set (rows t). y = fst row)" by auto
    then show "y \<le> ?m + 1"
      using max_rowid_ge_row [of _ t] by fastforce
  qed simp_all
  then show ?thesis by (simp add: max_rowid_Max)
qed

lemma review_update_id:
  "(r::review)\<lparr>review_id := x\<rparr>
     = \<lparr>review_text = review_text r, review_sentiment = review_sentiment r,
        review_created_at = review_created_at r, review_id = x\<rparr>"
  by (cases r) simp

lemma insert_review_ok:
  "max_rowid t < 9223372036854775807 \<Longrightarrow>
     insert_review None (Some t) review =
       (Some \<lparr>rows = rows t @ [(max_rowid t + 1, review_text review,
                                  review_sentiment review, review_created_at review)],
              sqlite_sequence = max_rowid t + 1\<rparr>,
        Inr (review\<lparr>review_id := Some (max_rowid t + 1)\<rparr>))"
  by (simp add: insert_review_def execute_insert_def commit_def Let_def)

lemma insert_review_InrD:
  "insert_review f db review = (db', Inr r) \<Longrightarrow>
     \<exists>t. f = None \<and> db = Some t \<and> max_rowid t < 9223372036854775807"
  by (auto simp: insert_review_def execute_insert_def commit_def Let_def
      split: option.splits fault.splits sum.splits if_splits prod.splits)

lemma insert_review_InlD: "insert_review f db review = (db', Inl e) \<Longrightarrow> db' = db"
  by (auto simp: insert_review_def execute_insert_def commit_def Let_def
      split: option.splits fault.splits sum.splits if_splits prod.splits)



lemma add_review_InrD:
  assumes "add_review lower utcnow f db text = (db', Inr r)"
  shows "\<exists>t. f = None \<and> db = Some t \<and> max_rowid t < 9223372036854775807
           \<and> db' = Some \<lparr>rows = rows t @ [(max_rowid t + 1, text, check lower text, utcnow)],
                          sqlite_sequence = max_rowid t + 1\<rparr>
           \<and> r = \<lparr>review_text = text, review_sentiment = check lower text,
                   review_created_at = utcnow, review_id = Some (max_rowid t + 1)\<rparr>"
proof -
  let ?rv = "\<lparr>review_text = text, review_sentiment = check lower text,
               review_created_at = utcnow, review_id = None\<rparr>"
  from assms have ins: "insert_review f db ?rv = (db', Inr r)"
    by (simp add: add_review_def Let_def)
  from insert_review_InrD [OF ins] obtain t where
    t: "f = None" "db = Some t" "max_rowid t < 9223372036854775807" by blast
  from ins t insert_review_ok [OF t(3), of ?rv] show ?thesis by simp
qed

lemma list_all_rows_less: "list_all (\<lambda>row. fst row < max_rowid t + 1) (rows t)"
  unfolding list_all_iff using max_rowid_ge_row [of _ t] by fastforce

lemma step_ids:
  assumes "sorted_wrt (<) (map fst (rows t))"
    and "list_all (\<lambda>row. fst row \<le> sqlite_sequence t) (rows t)"
  shows "\<exists>t'. step lower (Some t) c = Some t'
      \<and> sorted_wrt (<) (map fst (rows t'))
      \<and> list_all (\<lambda>row. fst row \<le> sqlite_sequence t') (rows t')"
proof (cases c)
  case (Add_review tx utcnow f)
  obtain db' res where ar: "add_review lower utcnow f (Some t) tx = (db', res)"
    by (cases "add_review lower utcnow f (Some t) tx")
  show ?thesis
  proof (cases res)
    case (Inl e)
    with ar have "insert_review f (Some t)
        \<lparr>review_text = tx, review_sentiment = check lower tx,
          review_created_at = utcnow, review_id = None\<rparr> = (db', Inl e)"
      by (simp add: add_review_def Let_def)
    then have "db' = Some t" by (rule insert_review_InlD)
    with ar Add_review assms show ?thesis by simp
  next
    case (Inr r)
    let ?t' = "\<lparr>rows = rows t @ [(max_rowid t + 1, tx, check lower tx, utcnow)],
                sqlite_sequence = max_rowid t + 1\<rparr>"
    from Inr ar add_review_InrD [of lower utcnow f "Some t" tx db' r]
    have db': "db' = Some ?t'" by simp
    have less: "\<forall>row \<in> set (rows t). fst row < max_rowid t + 1"
      using list_all_rows_less [of t] by (simp add: list_all_iff)
    have "sorted_wrt (<) (map fst (rows ?t'))"
      using assms(1) less by (simp add: sorted_wrt_append)
    moreover have "list_all (\<lambda>row. fst row \<le> sqlite_sequence ?t') (rows ?t')"
      using less by (auto simp: list_all_iff intro: less_imp_le)
    ultimately show ?thesis using ar Add_review db' by simp
  qed
next
  case (Get_reviews_by_sentiment sentiment f)
  with assms show ?thesis by simp
qed

lemma run_ids:
  "sorted_wrt (<) (map fst (rows t)) \<Longrightarrow>
   list_all (\<lambda>row. fst row \<le> sqlite_sequence t) (rows t) \<Longrightarrow>
     \<exists>t'. run lower (Some t) calls = Some t'
        \<and> sorted_wrt (<) (map fst (rows t'))
        \<and> list_all (\<lambda>row. fst row \<le> sqlite_sequence t') (rows t')"
proof (induction calls arbitrary: t)
  case Nil
  then show ?case by (simp add: run_def)
next
  case (Cons c calls)
  from step_ids [OF Cons.prems, of lower c] obtain t1 where
    s: "step lower (Some t) c = Some t1" "sorted_wrt (<) (map fst (rows t1))"
       "list_all (\<lambda>row. fst row \<le> sqlite_sequence t1) (rows t1)"
    by blast
  from Cons.IH [OF s(2,3)] s(1) show ?case by (simp add: run_def)
qed

text \<open>
  Claim C3. A successful \<open>add_review\<close> returns an id above the counter of the table and
  above the id of every row the table holds, and stores one row under it. Two
  successful calls with the same text store two rows with the same text and sentiment,
  the id of the second above the id of the first. Through any sequence of calls from
  the table that \<open>init_db\<close> creates, the ids of the rows increase strictly in the order
  of insertion, so no two rows share one, and none is above the counter.
\<close>

theorem add_review_fresh_id:
  "(add_review lower utcnow f db text = (db', Inr r) \<longrightarrow>
      (\<exists>t i. db = Some t \<and> review_id r = Some i \<and> sqlite_sequence t < i
         \<and> list_all (\<lambda>row. fst row < i) (rows t)
         \<and> db' = Some \<lparr>rows = rows t @ [(i, text, check lower text, utcnow)],
                        sqlite_sequence = i\<rparr>))
   \<and> (add_review lower utcnow1 f1 db text = (db1, Inr r1)
        \<and> add_review lower utcnow2 f2 db1 text = (db2, Inr r2) \<longrightarrow>
      (\<exists>t i1 i2. db = Some t \<and> review_id r1 = Some i1 \<and> review_id r2 = Some i2 \<and> i1 < i2
         \<and> review_text r1 = review_text r2 \<and> review_sentiment r1 = review_sentiment r2
         \<and> db2 = Some \<lparr>rows = rows t @ [(i1, text, check lower text, utcnow1),
                                         (i2, text, check lower text, utcnow2)],
                        sqlite_sequence = i2\<rparr>))
   \<and> (\<exists>t'. run lower (init_db None) calls = Some t'
         \<and> sorted_wrt (<) (map fst (rows t'))
         \<and> list_all (\<lambda>row. fst row \<le> sqlite_sequence t') (rows t'))"
proof (intro conjI impI)
  assume "add_review lower utcnow f db text = (db', Inr r)"
  from add_review_InrD [OF this] obtain t where
    t: "db = Some t"
       "db' = Some \<lparr>rows = rows t @ [(max_rowid t + 1, text, check lower text, utcnow)],
                     sqlite_sequence = max_rowid t + 1\<rparr>"
       "r = \<lparr>review_text = text, review_sentiment = check lower text,
              review_created_at = utcnow, review_id = Some (max_rowid t + 1)\<rparr>"
    by blast
  have "sqlite_sequence t < max_rowid t + 1"
    using max_rowid_ge_seq [of t] by simp
  with t list_all_rows_less [of t]
  show "\<exists>t i. db = Some t \<and> review_id r = Some i \<and> sqlite_sequence t < i
         \<and> list_all (\<lambda>row. fst row < i) (rows t)
         \<and> db' = Some \<lparr>rows = rows t @ [(i, text, check lower text, utcnow)],
                        sqlite_sequence = i\<rparr>"
    by simp
next
  assume h: "add_review lower utcnow1 f1 db text = (db1, Inr r1)
        \<and> add_review lower utcnow2 f2 db1 text = (db2, Inr r2)"
  from h add_review_InrD [of lower utcnow1 f1 db "text" db1 r1] obtain t where
    t: "db = Some t"
       "db1 = Some \<lparr>rows = rows t @ [(max_rowid t + 1, text, check lower text, utcnow1)],
                     sqlite_sequence = max_rowid t + 1\<rparr>"
       "r1 = \<lparr>review_text = text, review_sentiment = check lower text,
              review_created_at = utcnow1, review_id = Some (max_rowid t + 1)\<rparr>"
    by blast
  let ?t1 = "\<lparr>rows = rows t @ [(max_rowid t + 1, text, check lower text, utcnow1)],
              sqlite_sequence = max_rowid t + 1\<rparr>"
  from h add_review_InrD [of lower utcnow2 f2 db1 "text" db2 r2] obtain t1 where
    t1: "db1 = Some t1"
       "db2 = Some \<lparr>rows = rows t1 @ [(max_rowid t1 + 1, text, check lower text, utcnow2)],
                     sqlite_sequence = max_rowid t1 + 1\<rparr>"
       "r2 = \<lparr>review_text = text, review_sentiment = check lower text,
              review_created_at = utcnow2, review_id = Some (max_rowid t1 + 1)\<rparr>"
    by blast
  from t(2) t1(1) have eq: "t1 = ?t1" by simp
  have m: "max_rowid t1 = max_rowid t + 1"
    unfolding eq by (rule max_rowid_append)
  show "\<exists>t i1 i2. db = Some t \<and> review_id r1 = Some i1 \<and> review_id r2 = Some i2 \<and> i1 < i2
         \<and> review_text r1 = review_text r2 \<and> review_sentiment r1 = review_sentiment r2
         \<and> db2 = Some \<lparr>rows = rows t @ [(i1, text, check lower text, utcnow1),
                                         (i2, text, check lower text, utcnow2)],
                        sqlite_sequence = i2\<rparr>"
    using t(1,3) t1(2,3) m by (simp add: eq)
next
  from run_ids [of "\<lparr>rows = [], sqlite_sequence = 0\<rparr>" lower calls]
  show "\<exists>t'. run lower (init_db None) calls = Some t'
         \<and> sorted_wrt (<) (map fst (rows t'))
         \<and> list_all (\<lambda>row. fst row \<le> sqlite_sequence t') (rows t')"
    by (simp add: init_db_def)
qed

lemma max_rowid_empty: "max_rowid \<lparr>rows = [], sqlite_sequence = 0\<rparr> = 0"
  by (simp add: max_rowid_def)

lemma add_review_fresh:
  "add_review lower utcnow None (init_db None) text =
     (Some \<lparr>rows = [(1, text, check lower text, utcnow)], sqlite_sequence = 1\<rparr>,
      Inr \<lparr>review_text = text, review_sentiment = check lower text,
            review_created_at = utcnow, review_id = Some 1\<rparr>)"
  by (simp add: add_review_def Let_def init_db_def insert_review_ok max_rowid_empty)

lemma add_review_second:
  "add_review lower utcnow None
      (Some \<lparr>rows = [(1, text1, s1, c1)], sqlite_sequence = 1\<rparr>) text =
     (Some \<lparr>rows = [(1, text1, s1, c1), (2, text, check lower text, utcnow)],
            sqlite_sequence = 2\<rparr>,
      Inr \<lparr>review_text = text, review_sentiment = check lower text,
            review_created_at = utcnow, review_id = Some 2\<rparr>)"
  by (simp add: add_review_def Let_def insert_review_ok max_rowid_def)

theorem add_review_fresh_id_witness:
  "add_review lower_basic example_utcnow None (init_db None) example_positive =
     (Some \<lparr>rows = [(1, example_positive, ascii ''positive'', example_utcnow)],
            sqlite_sequence = 1\<rparr>,
      Inr \<lparr>review_text = example_positive, review_sentiment = ascii ''positive'',
            review_created_at = example_utcnow, review_id = Some 1\<rparr>)
   \<and> add_review lower_basic example_utcnow None
        (Some \<lparr>rows = [(1, example_positive, ascii ''positive'', example_utcnow)],
               sqlite_sequence = 1\<rparr>) example_positive =
     (Some \<lparr>rows = [(1, example_positive, ascii ''positive'', example_utcnow),
                     (2, example_positive, ascii ''positive'', example_utcnow)],
            sqlite_sequence = 2\<rparr>,
      Inr \<lparr>review_text = example_positive, review_sentiment = ascii ''positive'',
            review_created_at = example_utcnow, review_id = Some 2\<rparr>)
   \<and> (1::int) < 2"
proof -
  let ?db1 = "Some \<lparr>rows = [(1, example_positive, ascii ''positive'', example_utcnow)],
                    sqlite_sequence = 1\<rparr>"
  let ?db2 = "Some \<lparr>rows = [(1, example_positive, ascii ''positive'', example_utcnow),
                     (2, example_positive, ascii ''positive'', example_utcnow)],
            sqlite_sequence = 2\<rparr>"
  let ?r1 = "\<lparr>review_text = example_positive, review_sentiment = ascii ''positive'',
            review_created_at = example_utcnow, review_id = Some 1\<rparr>"
  let ?r2 = "\<lparr>review_text = example_positive, review_sentiment = ascii ''positive'',
            review_created_at = example_utcnow, review_id = Some 2\<rparr>"
  have a1: "add_review lower_basic example_utcnow None (init_db None) example_positive
      = (?db1, Inr ?r1)"
    by (simp add: add_review_fresh check_example)
  have a2: "add_review lower_basic example_utcnow None ?db1 example_positive = (?db2, Inr ?r2)"
    by (simp add: add_review_second check_example)
  from add_review_fresh_id
    [of lower_basic _ _ "init_db None" example_positive _ _
        example_utcnow None "?db1" "?r1" example_utcnow None "?db2" "?r2"]
    a1 a2
  have "\<exists>i1 i2. review_id ?r1 = Some i1 \<and> review_id ?r2 = Some i2 \<and> i1 < i2"
    by blast
  then have "(1::int) < 2" by simp
  with a1 a2 show ?thesis by simp
qed


lemma step_rows:
  "\<exists>t' new. step lower (Some t) c = Some t' \<and> rows t' = rows t @ new
      \<and> list_all (\<lambda>(i, txt, s, c). s = check lower txt) new"
proof (cases c)
  case (Add_review tx utcnow f)
  obtain db' res where ar: "add_review lower utcnow f (Some t) tx = (db', res)"
    by (cases "add_review lower utcnow f (Some t) tx")
  show ?thesis
  proof (cases res)
    case (Inl e)
    with ar have "insert_review f (Some t)
        \<lparr>review_text = tx, review_sentiment = check lower tx,
          review_created_at = utcnow, review_id = None\<rparr> = (db', Inl e)"
      by (simp add: add_review_def Let_def)
    then have "db' = Some t" by (rule insert_review_InlD)
    with ar Add_review have "step lower (Some t) c = Some t \<and> rows t = rows t @ []
      \<and> list_all (\<lambda>(i, txt, s, c). s = check lower txt) []"
      by simp
    then show ?thesis by blast
  next
    case (Inr r)
    with ar add_review_InrD [of lower utcnow f "Some t" tx db' r]
    have "db' = Some \<lparr>rows = rows t @ [(max_rowid t + 1, tx, check lower tx, utcnow)],
                       sqlite_sequence = max_rowid t + 1\<rparr>"
      by simp
    with ar Add_review have
      "step lower (Some t) c
         = Some \<lparr>rows = rows t @ [(max_rowid t + 1, tx, check lower tx, utcnow)],
                  sqlite_sequence = max_rowid t + 1\<rparr>
       \<and> rows \<lparr>rows = rows t @ [(max_rowid t + 1, tx, check lower tx, utcnow)],
                  sqlite_sequence = max_rowid t + 1\<rparr>
           = rows t @ [(max_rowid t + 1, tx, check lower tx, utcnow)]
       \<and> list_all (\<lambda>(i, txt, s, c). s = check lower txt)
            [(max_rowid t + 1, tx, check lower tx, utcnow)]"
      by simp
    then show ?thesis by blast
  qed
next
  case (Get_reviews_by_sentiment sentiment f)
  then have "step lower (Some t) c = Some t \<and> rows t = rows t @ []
      \<and> list_all (\<lambda>(i, txt, s, c). s = check lower txt) []"
    by simp
  then show ?thesis by blast
qed

lemma run_rows:
  "\<exists>t' new. run lower (Some t) calls = Some t' \<and> rows t' = rows t @ new
      \<and> list_all (\<lambda>(i, txt, s, c). s = check lower txt) new"
proof (induction calls arbitrary: t)
  case Nil
  have "run lower (Some t) [] = Some t \<and> rows t = rows t @ []
      \<and> list_all (\<lambda>(i, txt, s, c). s = check lower txt) []"
    by (simp add: run_def)
  then show ?case by blast
next
  case (Cons c calls)
  from step_rows [of lower t c] obtain t1 new1 where
    s: "step lower (Some t) c = Some t1" "rows t1 = rows t @ new1"
       "list_all (\<lambda>(i, txt, s, c). s = check lower txt) new1"
    by blast
  from Cons.IH [of t1] obtain t' new where
    r: "run lower (Some t1) calls = Some t'" "rows t' = rows t1 @ new"
       "list_all (\<lambda>(i, txt, s, c). s = check lower txt) new"
    by blast
  from s r have "run lower (Some t) (c # calls) = Some t' \<and> rows t' = rows t @ (new1 @ new)
      \<and> list_all (\<lambda>(i, txt, s, c). s = check lower txt) (new1 @ new)"
    by (simp add: run_def)
  then show ?case by blast
qed

text \<open>
  Claim C2. A review that \<open>add_review\<close> returns holds the text it was given and the
  value of \<open>check\<close> on that text, and so does the row stored for it. A sequence of calls
  of the service leaves every row of the table as it was and in its place: the table
  after the calls is the table before them followed by the new rows, and each new row
  holds the value of \<open>check\<close> on its text. From the table that \<open>init_db\<close> creates, every
  row does.
\<close>

theorem sentiment_fixed_at_insertion:
  "(add_review lower utcnow f db text = (db', Inr r) \<longrightarrow>
      review_text r = text \<and> review_sentiment r = check lower text
      \<and> (\<exists>t' i. db' = Some t' \<and> review_id r = Some i
            \<and> last (rows t') = (i, text, check lower text, utcnow)))
   \<and> (\<exists>t' new. run lower (Some t) calls = Some t' \<and> rows t' = rows t @ new
         \<and> list_all (\<lambda>(i, txt, s, c). s = check lower txt) new)
   \<and> (\<exists>t'. run lower (init_db None) calls = Some t'
         \<and> list_all (\<lambda>(i, txt, s, c). s = check lower txt) (rows t'))"
proof -
  have one: "review_text r = text \<and> review_sentiment r = check lower text
      \<and> (\<exists>t' i. db' = Some t' \<and> review_id r = Some i
            \<and> last (rows t') = (i, text, check lower text, utcnow))"
    if "add_review lower utcnow f db text = (db', Inr r)"
  proof -
    from add_review_InrD [OF that] obtain t0 where
      "db' = Some \<lparr>rows = rows t0 @ [(max_rowid t0 + 1, text, check lower text, utcnow)],
                    sqlite_sequence = max_rowid t0 + 1\<rparr>"
      "r = \<lparr>review_text = text, review_sentiment = check lower text,
             review_created_at = utcnow, review_id = Some (max_rowid t0 + 1)\<rparr>"
      by blast
    then show ?thesis by simp
  qed
  have two: "\<exists>t' new. run lower (Some t) calls = Some t' \<and> rows t' = rows t @ new
         \<and> list_all (\<lambda>(i, txt, s, c). s = check lower txt) new"
    by (rule run_rows)
  from run_rows [of lower "\<lparr>rows = [], sqlite_sequence = 0\<rparr>" calls]
  have three: "\<exists>t'. run lower (init_db None) calls = Some t'
         \<and> list_all (\<lambda>(i, txt, s, c). s = check lower txt) (rows t')"
    by (auto simp: init_db_def)
  from one two three show ?thesis by blast
qed

theorem sentiment_fixed_at_insertion_witness:
  "add_review lower_basic example_utcnow None (init_db None) example_positive =
     (Some \<lparr>rows = [(1, example_positive, ascii ''positive'', example_utcnow)],
            sqlite_sequence = 1\<rparr>,
      Inr \<lparr>review_text = example_positive, review_sentiment = ascii ''positive'',
            review_created_at = example_utcnow, review_id = Some 1\<rparr>)
   \<and> check lower_basic example_positive = ascii ''positive''"
proof -
  let ?db1 = "Some \<lparr>rows = [(1, example_positive, ascii ''positive'', example_utcnow)],
                    sqlite_sequence = 1\<rparr>"
  let ?r1 = "\<lparr>review_text = example_positive, review_sentiment = ascii ''positive'',
            review_created_at = example_utcnow, review_id = Some 1\<rparr>"
  have a1: "add_review lower_basic example_utcnow None (init_db None) example_positive
      = (?db1, Inr ?r1)"
    by (simp add: add_review_fresh check_example)
  from sentiment_fixed_at_insertion
    [of lower_basic example_utcnow None "init_db None" example_positive "?db1" "?r1"] a1
  have "review_sentiment ?r1 = check lower_basic example_positive" by blast
  then have "check lower_basic example_positive = ascii ''positive''" by simp
  with a1 show ?thesis by simp
qed


lemma review_of_row_stored:
  "review_of_row (i, review_text r, review_sentiment r, review_created_at r)
     = (r::review)\<lparr>review_id := Some i\<rparr>"
  by (simp add: review_of_row_def review_update_id)

lemma insert_all_stored:
  "insert_all (Some t) xs = (db', map Inr stored) \<Longrightarrow>
     \<exists>t'. db' = Some t'
        \<and> map review_of_row (rows t') = map review_of_row (rows t) @ stored
        \<and> length stored = length xs
        \<and> (\<forall>k<length xs.
              stored ! k = (snd (xs ! k))\<lparr>review_id := Some (max_rowid t + 1 + int k)\<rparr>)"
proof (induction xs arbitrary: t stored)
  case Nil
  then show ?case by auto
next
  case (Cons x xs)
  obtain f r where x: "x = (f, r)" by (cases x)
  obtain db1 res where ins: "insert_review f (Some t) r = (db1, res)"
    by (cases "insert_review f (Some t) r")
  obtain db2 ress where rest: "insert_all db1 xs = (db2, ress)"
    by (cases "insert_all db1 xs")
  from Cons.prems x ins rest have eq: "db2 = db'" "res # ress = map Inr stored"
    by simp_all
  from eq(2) obtain s0 stored' where
    st: "stored = s0 # stored'" "res = Inr s0" "ress = map Inr stored'"
    by (cases stored) auto
  let ?m = "max_rowid t"
  let ?t1 = "\<lparr>rows = rows t @ [(?m + 1, review_text r, review_sentiment r,
                                   review_created_at r)],
              sqlite_sequence = ?m + 1\<rparr>"
  from ins st(2) insert_review_InrD [of f "Some t" r db1 s0]
  have ok: "f = None" "?m < 9223372036854775807" by simp_all
  from ins st(2) ok insert_review_ok [OF ok(2), of r]
  have one: "db1 = Some ?t1" "s0 = r\<lparr>review_id := Some (?m + 1)\<rparr>" by simp_all
  have m1: "max_rowid ?t1 = ?m + 1" by (rule max_rowid_append)
  from rest st(3) eq(1) one(1) have "insert_all (Some ?t1) xs = (db', map Inr stored')"
    by simp
  from Cons.IH [OF this] obtain t' where
    ih: "db' = Some t'"
        "map review_of_row (rows t') = map review_of_row (rows ?t1) @ stored'"
        "length stored' = length xs"
        "\<forall>k<length xs.
           stored' ! k = (snd (xs ! k))\<lparr>review_id := Some (max_rowid ?t1 + 1 + int k)\<rparr>"
    by blast
  have rows: "map review_of_row (rows t') = map review_of_row (rows t) @ stored"
    using ih(2) st(1) one(2) by (simp add: review_of_row_stored)
  have len: "length stored = length (x # xs)"
    using ih(3) st(1) by simp
  have idx: "stored ! k = (snd ((x # xs) ! k))\<lparr>review_id := Some (?m + 1 + int k)\<rparr>"
    if "k < length (x # xs)" for k
  proof (cases k)
    case 0
    with st(1) one(2) x show ?thesis by simp
  next
    case (Suc j)
    with that have "j < length xs" by simp
    with ih(4) have "stored' ! j = (snd (xs ! j))\<lparr>review_id := Some (max_rowid ?t1 + 1 + int j)\<rparr>"
      by blast
    with Suc st(1) m1 show ?thesis by (simp add: add.commute add.left_commute)
  qed
  from ih(1) rows len idx show ?case by blast
qed

text \<open>
  Claim C4. After N successful \<open>insert\<close> calls on the table that \<open>init_db\<close> creates,
  \<open>fetch_all\<close> returns the N reviews the calls returned, in the order of the calls: the
  review of call \<open>k\<close> (from 0) is the review given to it with the id \<open>k + 1\<close>.
\<close>

theorem fetch_all_after_inserts:
  "insert_all (init_db None) xs = (db', map Inr stored) \<longrightarrow>
     fetch_all None db' = Inr stored
     \<and> length stored = length xs
     \<and> (\<forall>k<length xs. stored ! k = (snd (xs ! k))\<lparr>review_id := Some (int k + 1)\<rparr>)"
proof
  assume "insert_all (init_db None) xs = (db', map Inr stored)"
  then have "insert_all (Some \<lparr>rows = [], sqlite_sequence = 0\<rparr>) xs = (db', map Inr stored)"
    by (simp add: init_db_def)
  from insert_all_stored [OF this] obtain t' where
    t': "db' = Some t'"
        "map review_of_row (rows t') = stored"
        "length stored = length xs"
        "\<forall>k<length xs. stored ! k = (snd (xs ! k))\<lparr>review_id := Some (0 + 1 + int k)\<rparr>"
    by (auto simp: max_rowid_empty)
  have "fetch_all None db' = Inr stored"
    using t'(1,2) by (simp add: fetch_all_def execute_select_def)
  with t'(3,4) show "fetch_all None db' = Inr stored
     \<and> length stored = length xs
     \<and> (\<forall>k<length xs. stored ! k = (snd (xs ! k))\<lparr>review_id := Some (int k + 1)\<rparr>)"
    by (simp add: add.commute)
qed


theorem fetch_all_after_inserts_witness:
  "insert_all (init_db None)
     [(None, \<lparr>review_text = example_positive, review_sentiment = ascii ''positive'',
               review_created_at = example_utcnow, review_id = None\<rparr>),
      (None, \<lparr>review_text = example_neutral, review_sentiment = ascii ''neutral'',
               review_created_at = example_utcnow, review_id = None\<rparr>)]
     = (Some example_table,
        map Inr
          [\<lparr>review_text = example_positive, review_sentiment = ascii ''positive'',
             review_created_at = example_utcnow, review_id = Some 1\<rparr>,
           \<lparr>review_text = example_neutral, review_sentiment = ascii ''neutral'',
             review_created_at = example_utcnow, review_id = Some 2\<rparr>])
   \<and> fetch_all None (Some example_table)
     = Inr [\<lparr>review_text = example_positive, review_sentiment = ascii ''positive'',
              review_created_at = example_utcnow, review_id = Some 1\<rparr>,
            \<lparr>review_text = example_neutral, review_sentiment = ascii ''neutral'',
              review_created_at = example_utcnow, review_id = Some 2\<rparr>]"
proof -
  let ?xs = "[(None, \<lparr>review_text = example_positive, review_sentiment = ascii ''positive'',
               review_created_at = example_utcnow, review_id = None\<rparr>),
      (None, \<lparr>review_text = example_neutral, review_sentiment = ascii ''neutral'',
               review_created_at = example_utcnow, review_id = None\<rparr>)]"
  let ?stored = "[\<lparr>review_text = example_positive, review_sentiment = ascii ''positive'',
             review_created_at = example_utcnow, review_id = Some 1\<rparr>,
           \<lparr>review_text = example_neutral, review_sentiment = ascii ''neutral'',
             review_created_at = example_utcnow, review_id = Some 2\<rparr>]"
  have run: "insert_all (init_db None) ?xs = (Some example_table, map Inr ?stored)"
    by (simp add: init_db_def insert_review_def execute_insert_def commit_def max_rowid_def
        example_table_def Let_def)
  from fetch_all_after_inserts [of ?xs "Some example_table" ?stored] run
  have "fetch_all None (Some example_table) = Inr ?stored" by blast
  with run show ?thesis by simp
qed

lemma sentiment_of_row: "review_sentiment (review_of_row r) = fst (snd (snd r))"
  by (cases r) (simp add: review_of_row_def)

lemma filter_rows_sentiment:
  "map review_of_row (filter (\<lambda>(i, t, s, c). s = label) rs)
     = filter (\<lambda>r. review_sentiment r = label) (map review_of_row rs)"
  by (induction rs) (auto simp: sentiment_of_row)

text \<open>
  Claim C5. \<open>fetch_by_sentiment\<close> returns the reviews of \<open>fetch_all\<close> whose sentiment is
  the label, in the order of \<open>fetch_all\<close>, and fails only where \<open>fetch_all\<close> fails. For a
  label that no stored review has it returns the empty list. On a table that exists
  and a medium that works it returns a list for every label.
\<close>

theorem fetch_by_sentiment_subset:
  "fetch_by_sentiment f db label =
     (case fetch_all f db of
        Inl e \<Rightarrow> Inl e
      | Inr rs \<Rightarrow> Inr (filter (\<lambda>r. review_sentiment r = label) rs))
   \<and> (fetch_all f db = Inr rs \<and> label \<notin> review_sentiment ` set rs
        \<longrightarrow> fetch_by_sentiment f db label = Inr [])
   \<and> fetch_by_sentiment None (Some t) label =
       Inr (filter (\<lambda>r. review_sentiment r = label) (map review_of_row (rows t)))"
proof -
  have one: "fetch_by_sentiment f db label =
     (case fetch_all f db of
        Inl e \<Rightarrow> Inl e
      | Inr rs \<Rightarrow> Inr (filter (\<lambda>r. review_sentiment r = label) rs))"
    by (simp add: fetch_by_sentiment_def fetch_all_def execute_select_def filter_rows_sentiment
        split: option.splits fault.splits)
  have two: "fetch_by_sentiment f db label = Inr []"
    if "fetch_all f db = Inr rs \<and> label \<notin> review_sentiment ` set rs"
  proof -
    from that have "filter (\<lambda>r. review_sentiment r = label) rs = []"
      by (auto simp: filter_empty_conv)
    with that one show ?thesis by simp
  qed
  have three: "fetch_by_sentiment None (Some t) label =
       Inr (filter (\<lambda>r. review_sentiment r = label) (map review_of_row (rows t)))"
    by (simp add: fetch_by_sentiment_def execute_select_def filter_rows_sentiment)
  from one two three show ?thesis by blast
qed

lemma fetch_all_example:
  "fetch_all None (Some example_table)
     = Inr [\<lparr>review_text = example_positive, review_sentiment = ascii ''positive'',
              review_created_at = example_utcnow, review_id = Some 1\<rparr>,
            \<lparr>review_text = example_neutral, review_sentiment = ascii ''neutral'',
              review_created_at = example_utcnow, review_id = Some 2\<rparr>]"
  by (simp add: fetch_all_def execute_select_def example_table_def review_of_row_def)

theorem fetch_by_sentiment_subset_witness:
  "fetch_by_sentiment None (Some example_table) (ascii ''unknown'') = Inr []
   \<and> fetch_by_sentiment None (Some example_table) (ascii ''positive'')
       = Inr [\<lparr>review_text = example_positive, review_sentiment = ascii ''positive'',
                review_created_at = example_utcnow, review_id = Some 1\<rparr>]"
proof -
  let ?rs = "[\<lparr>review_text = example_positive, review_sentiment = ascii ''positive'',
              review_created_at = example_utcnow, review_id = Some 1\<rparr>,
            \<lparr>review_text = example_neutral, review_sentiment = ascii ''neutral'',
              review_created_at = example_utcnow, review_id = Some 2\<rparr>]"
  have no: "ascii ''unknown'' \<notin> review_sentiment ` set ?rs"
    by (simp add: ascii_def)
  from fetch_by_sentiment_subset
    [of None "Some example_table" "ascii ''unknown''" ?rs example_table] fetch_all_example no
  have a: "fetch_by_sentiment None (Some example_table) (ascii ''unknown'') = Inr []"
    by blast
  from fetch_by_sentiment_subset
    [of None "Some example_table" "ascii ''positive''" ?rs example_table]
  have "fetch_by_sentiment None (Some example_table) (ascii ''positive'')
      = (case fetch_all None (Some example_table) of
           Inl e \<Rightarrow> Inl e
         | Inr rs \<Rightarrow> Inr (filter (\<lambda>r. review_sentiment r = ascii ''positive'') rs))"
    by blast
  then have "fetch_by_sentiment None (Some example_table) (ascii ''positive'')
       = Inr [\<lparr>review_text = example_positive, review_sentiment = ascii ''positive'',
                review_created_at = example_utcnow, review_id = Some 1\<rparr>]"
    by (simp add: fetch_all_example ascii_def)
  with a show ?thesis by simp
qed

text \<open>
  Claim C6. With the empty string \<open>get_reviews_by_sentiment\<close> is \<open>fetch_all\<close>; with any
  other string it is \<open>fetch_by_sentiment\<close> of that string. The string is not compared
  with the three labels: on a table that exists and a medium that works, every
  non-empty string gets the list of the reviews that have it as their sentiment.
\<close>

theorem get_reviews_by_sentiment_dispatch:
  "get_reviews_by_sentiment f db [] = fetch_all f db
   \<and> (sentiment \<noteq> [] \<longrightarrow>
        get_reviews_by_sentiment f db sentiment = fetch_by_sentiment f db sentiment)
   \<and> (sentiment \<noteq> [] \<longrightarrow>
        get_reviews_by_sentiment None (Some t) sentiment =
          Inr (filter (\<lambda>r. review_sentiment r = sentiment) (map review_of_row (rows t))))"
  by (simp add: get_reviews_by_sentiment_def fetch_by_sentiment_def execute_select_def
      filter_rows_sentiment)

theorem get_reviews_by_sentiment_dispatch_witness:
  "ascii ''unknown'' \<noteq> []
   \<and> get_reviews_by_sentiment None (Some example_table) (ascii ''unknown'')
       = fetch_by_sentiment None (Some example_table) (ascii ''unknown'')
   \<and> get_reviews_by_sentiment None (Some example_table) (ascii ''unknown'') = Inr []
   \<and> get_reviews_by_sentiment None (Some example_table) []
       = fetch_all None (Some example_table)"
proof -
  have ne: "ascii ''unknown'' \<noteq> []" by (simp add: ascii_def)
  note d = get_reviews_by_sentiment_dispatch
    [of None "Some example_table" "ascii ''unknown''" example_table]
  from d ne have a: "get_reviews_by_sentiment None (Some example_table) (ascii ''unknown'')
       = fetch_by_sentiment None (Some example_table) (ascii ''unknown'')"
    by blast
  from d ne have "get_reviews_by_sentiment None (Some example_table) (ascii ''unknown'')
       = Inr (filter (\<lambda>r. review_sentiment r = ascii ''unknown'')
                (map review_of_row (rows example_table)))"
    by blast
  then have b: "get_reviews_by_sentiment None (Some example_table) (ascii ''unknown'') = Inr []"
    by (simp add: example_table_def review_of_row_def ascii_def)
  from d have c: "get_reviews_by_sentiment None (Some example_table) []
       = fetch_all None (Some example_table)"
    by blast
  from ne a b c show ?thesis by simp
qed







text \<open>
  Claim C10. \<open>add_review\<close> with the empty text, on a table that exists, with a medium
  that works and ids left: the text is classified \<open>neutral\<close> (the lower case of the empty
  text being empty) and a row with the empty text and the sentiment \<open>neutral\<close> is
  stored; the review is returned and no error is.
\<close>

theorem add_review_empty_text:
  "lower [] = [] \<and> max_rowid t < 9223372036854775807 \<longrightarrow>
     add_review lower utcnow None (Some t) [] =
       (Some \<lparr>rows = rows t @ [(max_rowid t + 1, [], ascii ''neutral'', utcnow)],
              sqlite_sequence = max_rowid t + 1\<rparr>,
        Inr \<lparr>review_text = [], review_sentiment = ascii ''neutral'',
              review_created_at = utcnow, review_id = Some (max_rowid t + 1)\<rparr>)"
proof
  assume h: "lower [] = [] \<and> max_rowid t < 9223372036854775807"
  then have "check lower [] = ascii ''neutral''"
    by (simp add: check_def Let_def POSITIVE_def NEGATIVE_def)
  with h show "add_review lower utcnow None (Some t) [] =
       (Some \<lparr>rows = rows t @ [(max_rowid t + 1, [], ascii ''neutral'', utcnow)],
              sqlite_sequence = max_rowid t + 1\<rparr>,
        Inr \<lparr>review_text = [], review_sentiment = ascii ''neutral'',
              review_created_at = utcnow, review_id = Some (max_rowid t + 1)\<rparr>)"
    by (simp add: add_review_def Let_def insert_review_ok)
qed

theorem add_review_empty_text_witness:
  "add_review lower_basic example_utcnow None (init_db None) [] =
     (Some \<lparr>rows = [(1, [], ascii ''neutral'', example_utcnow)], sqlite_sequence = 1\<rparr>,
      Inr \<lparr>review_text = [], review_sentiment = ascii ''neutral'',
            review_created_at = example_utcnow, review_id = Some 1\<rparr>)"
proof -
  have l: "lower_basic [] = []" by (simp add: lower_basic_def)
  have m: "max_rowid \<lparr>rows = [], sqlite_sequence = 0\<rparr> < 9223372036854775807"
    by (simp add: max_rowid_empty)
  from add_review_empty_text
    [of lower_basic "\<lparr>rows = [], sqlite_sequence = 0\<rparr>" example_utcnow] l m
  show ?thesis by (simp add: init_db_def max_rowid_empty)
qed

end
